theory Spec2Isabelle
  imports Main
begin

section \<open>PostgresRunStorage: a shallow embedding\<close>

text \<open>
  The development follows \<^verbatim>\<open>dagster_postgres/run_storage/run_storage.py\<close>, the class
  \<^verbatim>\<open>PostgresRunStorage\<close>. The methods are embedded one by one, under their own names.
  The database server, SQLAlchemy and alembic are collaborators outside the repository:
  the state they keep (tables, rows, the stamped revision) is passed explicitly, and the
  statements the methods build are given the meaning PostgreSQL documents for them.
  The model is sequential: one statement runs at a time and no connection fails.
\<close>

subsection \<open>Errors\<close>

text \<open>
  Every exception a modelled path can raise is a value:
  \<^item> \<open>CheckError\<close>: the error of \<^verbatim>\<open>dagster._check\<close> on a parameter that fails its check
    (\<^verbatim>\<open>ParameterCheckError\<close> is a subclass of it);
  \<^item> \<open>CardinalityViolation\<close>: PostgreSQL's error 21000, "ON CONFLICT DO UPDATE command
    cannot affect row a second time";
  \<^item> \<open>DuplicateTable\<close>: PostgreSQL's error 42P07 on CREATE TABLE of a table that exists.
\<close>

datatype error = CheckError | CardinalityViolation | DuplicateTable

subsection \<open>The engine and the long-lived-connection mode\<close>

text \<open>
  \<^verbatim>\<open>create_engine\<close> is called twice in the class, with these keyword arguments:
  \<^verbatim>\<open>isolation_level\<close>, \<^verbatim>\<open>poolclass\<close>, \<^verbatim>\<open>pool_size\<close>, \<^verbatim>\<open>connect_args\<close>, \<^verbatim>\<open>pool_recycle\<close>.
  An engine is the record of what it was created with; an argument that a call leaves out
  is \<open>None\<close> (or the empty dictionary for \<^verbatim>\<open>connect_args\<close>).
\<close>

datatype poolclass = NullPool

record pg_engine =
  url :: string
  isolation_level :: string
  pool_class :: "poolclass option"
  pool_size :: "nat option"
  connect_args :: "(string \<times> string) list"
  pool_recycle :: "int option"

text \<open>
  The store handle: the attributes \<^verbatim>\<open>postgres_url\<close>, \<^verbatim>\<open>should_autocreate_tables\<close>,
  \<^verbatim>\<open>_engine\<close> and \<^verbatim>\<open>_index_migration_cache\<close> (a dict from migration names to booleans)
  that \<^verbatim>\<open>__init__\<close> sets.
\<close>

record PostgresRunStorage =
  postgres_url :: string
  should_autocreate_tables :: bool
  engine :: pg_engine
  index_migration_cache :: "string \<rightharpoonup> bool"

text \<open>The engine of \<^verbatim>\<open>__init__\<close> (lines 79-83): no connection is held between operations.\<close>

definition init_engine :: "string \<Rightarrow> pg_engine" where
  "init_engine a_url =
     \<lparr>url = a_url, isolation_level = ''AUTOCOMMIT'', pool_class = Some NullPool,
      pool_size = None, connect_args = [], pool_recycle = None\<rparr>"

text \<open>
  \<^verbatim>\<open>optimize_for_dagit\<close> (lines 107-121). Two helpers are not among the sources and are
  parameters: \<open>url_query\<close> is SQLAlchemy's parsing of an URL into its query dictionary
  (\<^verbatim>\<open>engine.url.query\<close>), and \<open>pg_statement_timeout\<close> is the helper of
  \<^verbatim>\<open>dagster_postgres.utils\<close> that renders the timeout directive. Python's test
  \<^verbatim>\<open>if existing_options\<close> is false for \<^verbatim>\<open>None\<close> and for the empty string.
\<close>

definition optimize_for_dagit ::
  "(string \<Rightarrow> string \<rightharpoonup> string) \<Rightarrow> (int \<Rightarrow> string) \<Rightarrow> int \<Rightarrow> int \<Rightarrow>
   PostgresRunStorage \<Rightarrow> PostgresRunStorage" where
  "optimize_for_dagit url_query pg_statement_timeout statement_timeout a_pool_recycle self =
     (let existing_options = url_query (url (engine self)) ''options'';
          timeout_option = pg_statement_timeout statement_timeout;
          options =
            (case existing_options of
               None \<Rightarrow> timeout_option
             | Some existing \<Rightarrow>
                 if existing \<noteq> [] then timeout_option @ '' '' @ existing
                 else timeout_option)
      in self\<lparr>engine :=
           \<lparr>url = postgres_url self, isolation_level = ''AUTOCOMMIT'', pool_class = None,
            pool_size = Some 1, connect_args = [(''options'', options)],
            pool_recycle = Some a_pool_recycle\<rparr>\<rparr>)"

subsection \<open>The database behind a connection\<close>

text \<open>
  What a method reads and writes through \<^verbatim>\<open>self.connect()\<close>: the contents it works on
  (the rows of one table, or the catalogue) and the number of statements the server has
  executed so far. The counter makes "one statement" and "no query" properties of the
  model.
\<close>

record 'c database =
  contents :: 'c
  statements :: nat

subsection \<open>INSERT ... ON CONFLICT DO UPDATE\<close>

text \<open>
  The statement that \<^verbatim>\<open>postgresql.insert(table).values(rows).on_conflict_do_update(
  index_elements=..., set_=...)\<close> builds: the rows proposed for insertion, the column
  that arbitrates conflicts (as a function reading it from a row), and the assignment of
  the DO UPDATE clause, which maps the existing row and the proposed one (EXCLUDED) to the
  updated row.
\<close>

record ('r, 'k) upsert_stmt =
  proposed :: "'r list"
  index_elements :: "'r \<Rightarrow> 'k"
  do_update :: "'r \<Rightarrow> 'r \<Rightarrow> 'r"

text \<open>
  One proposed row: the row that holds the same value in the arbiter column is updated
  in place; when there is none, the proposed row is appended.
\<close>

fun upsert_row :: "('r \<Rightarrow> 'k) \<Rightarrow> ('r \<Rightarrow> 'r \<Rightarrow> 'r) \<Rightarrow> 'r \<Rightarrow> 'r list \<Rightarrow> 'r list" where
  "upsert_row key upd v [] = [v]"
| "upsert_row key upd v (r # rs) =
     (if key r = key v then upd r v # rs else r # upsert_row key upd v rs)"

text \<open>
  The proposed rows are taken in order. PostgreSQL does not let one command affect a row
  twice: a proposed row whose arbiter value was proposed earlier in the same command
  meets the row that command has just inserted or updated, and the command fails with a
  cardinality violation. \<open>affected\<close> holds the arbiter values met so far.
\<close>

fun upsert_rows ::
  "('r \<Rightarrow> 'k) \<Rightarrow> ('r \<Rightarrow> 'r \<Rightarrow> 'r) \<Rightarrow> 'r list \<Rightarrow> 'k list \<Rightarrow> 'r list \<Rightarrow> error + 'r list" where
  "upsert_rows key upd [] affected rows = Inr rows"
| "upsert_rows key upd (v # vs) affected rows =
     (if key v \<in> set affected then Inl CardinalityViolation
      else upsert_rows key upd vs (key v # affected) (upsert_row key upd v rows))"

text \<open>
  \<^verbatim>\<open>conn.execute(stmt)\<close> on an AUTOCOMMIT engine: the statement is one more statement
  executed, and it is atomic: when it fails the rows stay as they were.
\<close>

definition execute ::
  "('r, 'k) upsert_stmt \<Rightarrow> 'r list database \<Rightarrow> (error + unit) \<times> 'r list database" where
  "execute stmt db =
     (case upsert_rows (index_elements stmt) (do_update stmt) (proposed stmt) [] (contents db) of
        Inl e \<Rightarrow> (Inl e, db\<lparr>statements := statements db + 1\<rparr>)
      | Inr rows \<Rightarrow> (Inr (), \<lparr>contents = rows, statements = statements db + 1\<rparr>))"

subsection \<open>Daemon heartbeats\<close>

text \<open>
  A \<^verbatim>\<open>DaemonHeartbeat\<close> with the attributes the method reads. Its timestamp is a Python
  float, kept abstract (\<open>'f\<close>): the method only hands it to
  \<^verbatim>\<open>utc_datetime_from_timestamp\<close>. A row of \<^verbatim>\<open>DaemonHeartbeatsTable\<close> has the four
  columns the statement names.
\<close>

record 'f DaemonHeartbeat =
  timestamp :: 'f
  daemon_type :: string
  daemon_id :: string

record 'd heartbeat_row =
  col_timestamp :: 'd
  col_daemon_type :: string
  col_daemon_id :: string
  col_body :: string

text \<open>
  \<^verbatim>\<open>add_daemon_heartbeat\<close> (lines 173-197). \<open>utc_datetime_from_timestamp\<close> and
  \<open>serialize_value\<close> are imported helpers, taken as parameters. The RETURNING clause
  only names what the statement gives back, which the method drops.
\<close>

definition heartbeat_stmt ::
  "('f \<Rightarrow> 'd) \<Rightarrow> ('f DaemonHeartbeat \<Rightarrow> string) \<Rightarrow> 'f DaemonHeartbeat \<Rightarrow>
   ('d heartbeat_row, string) upsert_stmt" where
  "heartbeat_stmt utc_datetime_from_timestamp serialize_value daemon_heartbeat =
     \<lparr>proposed =
        [\<lparr>col_timestamp = utc_datetime_from_timestamp (timestamp daemon_heartbeat),
          col_daemon_type = daemon_type daemon_heartbeat,
          col_daemon_id = daemon_id daemon_heartbeat,
          col_body = serialize_value daemon_heartbeat\<rparr>],
      index_elements = col_daemon_type,
      do_update = (\<lambda>existing excluded.
        existing\<lparr>col_timestamp := utc_datetime_from_timestamp (timestamp daemon_heartbeat),
                 col_daemon_id := daemon_id daemon_heartbeat,
                 col_body := serialize_value daemon_heartbeat\<rparr>)\<rparr>"

definition add_daemon_heartbeat ::
  "('f \<Rightarrow> 'd) \<Rightarrow> ('f DaemonHeartbeat \<Rightarrow> string) \<Rightarrow> 'f DaemonHeartbeat \<Rightarrow>
   'd heartbeat_row list database \<Rightarrow> (error + unit) \<times> 'd heartbeat_row list database" where
  "add_daemon_heartbeat utc_datetime_from_timestamp serialize_value daemon_heartbeat db =
     execute (heartbeat_stmt utc_datetime_from_timestamp serialize_value daemon_heartbeat) db"

text \<open>Calls made one after the other, each on the database the one before left.\<close>

fun add_daemon_heartbeats ::
  "('f \<Rightarrow> 'd) \<Rightarrow> ('f DaemonHeartbeat \<Rightarrow> string) \<Rightarrow> 'f DaemonHeartbeat list \<Rightarrow>
   'd heartbeat_row list database \<Rightarrow> 'd heartbeat_row list database" where
  "add_daemon_heartbeats utc ser [] db = db"
| "add_daemon_heartbeats utc ser (hb # hbs) db =
     add_daemon_heartbeats utc ser hbs (snd (add_daemon_heartbeat utc ser hb db))"

subsection \<open>The key-value store\<close>

text \<open>
  The argument of \<^verbatim>\<open>kvs_set\<close> is any Python object. A mapping is given by what its
  \<^verbatim>\<open>items()\<close> yields, in order; a \<^verbatim>\<open>dict\<close> yields every key once.
\<close>

datatype py_obj =
    PyNone
  | PyInt int
  | PyStr string
  | PyList "py_obj list"
  | PyMapping "(py_obj \<times> py_obj) list"

text \<open>The mapping whose items are the given pairs of strings.\<close>

definition str_mapping :: "(string \<times> string) list \<Rightarrow> py_obj" where
  "str_mapping items = PyMapping (map (\<lambda>(k, v). (PyStr k, PyStr v)) items)"

text \<open>The items as pairs of strings, when every key and every value is a \<^verbatim>\<open>str\<close>.\<close>

fun str_items :: "(py_obj \<times> py_obj) list \<Rightarrow> (string \<times> string) list option" where
  "str_items [] = Some []"
| "str_items ((PyStr k, PyStr v) # items) =
     (case str_items items of None \<Rightarrow> None | Some kvs \<Rightarrow> Some ((k, v) # kvs))"
| "str_items (_ # items) = None"

text \<open>
  Modelled from the spec: \<^verbatim>\<open>check.mapping_param(pairs, "pairs", key_type=str,
  value_type=str)\<close> of \<^verbatim>\<open>dagster._check\<close>, which is not among the sources. The argument
  must be "a mapping of string keys to string values"; anything else raises the check's
  error. On success the items read afterwards are pairs of strings.
\<close>

definition mapping_param :: "py_obj \<Rightarrow> error + (string \<times> string) list" where
  "mapping_param obj =
     (case obj of
        PyMapping items \<Rightarrow>
          (case str_items items of None \<Rightarrow> Inl CheckError | Some kvs \<Rightarrow> Inr kvs)
      | _ \<Rightarrow> Inl CheckError)"

text \<open>A row of \<^verbatim>\<open>KeyValueStoreTable\<close>: the columns \<^verbatim>\<open>key\<close> and \<^verbatim>\<open>value\<close>.\<close>

record kvs_row =
  kvs_key :: string
  kvs_value :: string

text \<open>
  \<^verbatim>\<open>kvs_set\<close> (lines 199-218): the check comes first; then one statement is built from
  the items, with \<^verbatim>\<open>set_={"value": insert_stmt.excluded.value}\<close>, and executed.
  SQLAlchemy builds a multi-row VALUES clause from a non-empty list only; for the empty
  mapping the model proposes no row.
\<close>

definition kvs_upsert_stmt :: "(string \<times> string) list \<Rightarrow> (kvs_row, string) upsert_stmt" where
  "kvs_upsert_stmt items =
     \<lparr>proposed = map (\<lambda>(k, v). \<lparr>kvs_key = k, kvs_value = v\<rparr>) items,
      index_elements = kvs_key,
      do_update = (\<lambda>existing excluded. existing\<lparr>kvs_value := kvs_value excluded\<rparr>)\<rparr>"

definition kvs_set :: "py_obj \<Rightarrow> kvs_row list database \<Rightarrow> (error + unit) \<times> kvs_row list database" where
  "kvs_set pairs db =
     (case mapping_param pairs of
        Inl e \<Rightarrow> (Inl e, db)
      | Inr items \<Rightarrow> execute (kvs_upsert_stmt items) db)"

subsection \<open>The migration index cache\<close>

text \<open>
  Modelled from the spec: \<^verbatim>\<open>SqlRunStorage.has_built_index\<close> and
  \<^verbatim>\<open>SqlRunStorage.mark_index_built\<close>, the inherited methods that the overrides call
  through \<^verbatim>\<open>super()\<close>; the base class is not among the sources. The migration marker is
  "keyed by migration name; boolean completion state persisted in a table". The first
  method "queries the persisted marker", the second "persists the marker as built"; each
  is one statement.
\<close>

definition SqlRunStorage_has_built_index ::
  "string \<Rightarrow> (string \<rightharpoonup> bool) database \<Rightarrow> bool \<times> (string \<rightharpoonup> bool) database" where
  "SqlRunStorage_has_built_index migration_name db =
     (contents db migration_name = Some True, db\<lparr>statements := statements db + 1\<rparr>)"

definition SqlRunStorage_mark_index_built ::
  "string \<Rightarrow> (string \<rightharpoonup> bool) database \<Rightarrow> (string \<rightharpoonup> bool) database" where
  "SqlRunStorage_mark_index_built migration_name db =
     \<lparr>contents = (contents db)(migration_name \<mapsto> True), statements = statements db + 1\<rparr>"

text \<open>
  \<^verbatim>\<open>has_built_index\<close> (lines 161-166) and \<^verbatim>\<open>mark_index_built\<close> (lines 168-171). The
  state is the handle together with the database. On a miss, line 166 returns the entry
  that line 163 has just written.
\<close>

definition has_built_index ::
  "string \<Rightarrow> PostgresRunStorage \<times> (string \<rightharpoonup> bool) database \<Rightarrow>
   bool \<times> (PostgresRunStorage \<times> (string \<rightharpoonup> bool) database)" where
  "has_built_index migration_name st =
     (case st of (self, db) \<Rightarrow>
        (case index_migration_cache self migration_name of
           None \<Rightarrow>
             (case SqlRunStorage_has_built_index migration_name db of (built, db') \<Rightarrow>
                (built,
                 (self\<lparr>index_migration_cache :=
                         (index_migration_cache self)(migration_name \<mapsto> built)\<rparr>, db')))
         | Some cached \<Rightarrow> (cached, (self, db))))"

definition mark_index_built ::
  "string \<Rightarrow> PostgresRunStorage \<times> (string \<rightharpoonup> bool) database \<Rightarrow>
   PostgresRunStorage \<times> (string \<rightharpoonup> bool) database" where
  "mark_index_built migration_name st =
     (case st of (self, db) \<Rightarrow>
        (let db' = SqlRunStorage_mark_index_built migration_name db
         in if migration_name \<in> dom (index_migration_cache self)
            then (self\<lparr>index_migration_cache :=
                         (index_migration_cache self)(migration_name := None)\<rparr>, db')
            else (self, db')))"

subsection \<open>Bootstrap of the schema\<close>

text \<open>
  The catalogue of the database: the names \<^verbatim>\<open>db.inspect(engine).get_table_names()\<close>
  returns, and the revision alembic has stamped (the content of its version table), if any.
\<close>

record catalogue =
  table_names :: "string list"
  alembic_version :: "string option"

text \<open>
  \<^verbatim>\<open>Table.create(engine)\<close> issues CREATE TABLE, which fails when the table exists.
  \<^verbatim>\<open>MetaData.create_all(conn)\<close> checks first and creates only the tables that are
  missing. \<^verbatim>\<open>stamp_alembic_rev\<close> records the revision.
\<close>

definition create_table :: "string \<Rightarrow> catalogue \<Rightarrow> error + catalogue" where
  "create_table name c =
     (if name \<in> set (table_names c) then Inl DuplicateTable
      else Inr (c\<lparr>table_names := table_names c @ [name]\<rparr>))"

fun create_all :: "string list \<Rightarrow> catalogue \<Rightarrow> catalogue" where
  "create_all [] c = c"
| "create_all (name # names) c =
     create_all names
       (if name \<in> set (table_names c) then c else c\<lparr>table_names := table_names c @ [name]\<rparr>)"

definition stamp_alembic_rev :: "string \<Rightarrow> catalogue \<Rightarrow> catalogue" where
  "stamp_alembic_rev revision c = c\<lparr>alembic_version := Some revision\<rparr>"

text \<open>
  \<^verbatim>\<open>_init_db\<close> (lines 100-105), one transaction. \<open>metadata\<close> stands for the tables of
  \<^verbatim>\<open>RunStorageSqlMetadata\<close> and \<open>revision\<close> for the revision of the alembic configuration;
  both are declared outside the sources and are parameters.
\<close>

definition init_db :: "string list \<Rightarrow> string \<Rightarrow> catalogue \<Rightarrow> catalogue" where
  "init_db metadata revision c = stamp_alembic_rev revision (create_all metadata c)"

text \<open>
  \<^verbatim>\<open>__init__\<close> (lines 66-98). \<^verbatim>\<open>retry_pg_connection_fn\<close> and \<^verbatim>\<open>retry_pg_creation_fn\<close>
  run the function they are given (and run it again after a transient failure, which the
  model does not have). \<open>migrate\<close> and \<open>optimize\<close> are inherited from
  \<^verbatim>\<open>SqlRunStorage\<close> and are parameters: they work on the handle and the database.
  \<^verbatim>\<open>InstanceInfo\<close> is the table named \<^verbatim>\<open>instance_info\<close>. The attribute
  \<^verbatim>\<open>_inst_data\<close> is read by no method modelled here and is left out.
\<close>

definition PostgresRunStorage_init ::
  "string list \<Rightarrow> string \<Rightarrow>
   (PostgresRunStorage \<times> catalogue \<Rightarrow> PostgresRunStorage \<times> catalogue) \<Rightarrow>
   (PostgresRunStorage \<times> catalogue \<Rightarrow> PostgresRunStorage \<times> catalogue) \<Rightarrow>
   string \<Rightarrow> bool \<Rightarrow> catalogue \<Rightarrow> error + PostgresRunStorage \<times> catalogue" where
  "PostgresRunStorage_init metadata revision migrate optimize a_postgres_url autocreate c =
     (let self = \<lparr>postgres_url = a_postgres_url, should_autocreate_tables = autocreate,
                  engine = init_engine a_postgres_url, index_migration_cache = Map.empty\<rparr>
      in if should_autocreate_tables self then
           (let names = table_names c
            in if ''runs'' \<notin> set names then
                 Inr (optimize (migrate (self, init_db metadata revision c)))
               else if ''instance_info'' \<notin> set names then
                 (case create_table ''instance_info'' c of
                    Inl e \<Rightarrow> Inl e
                  | Inr c' \<Rightarrow> Inr (self, c'))
               else Inr (self, c))
         else Inr (self, c))"

section \<open>Properties\<close>

subsection \<open>Lemmas about the upsert\<close>

text \<open>
  The DO UPDATE assignments of this class leave the arbiter column alone and overwrite
  every other column, so the updated row is the proposed one. Under that condition the
  rows with the proposed key are exactly the proposed row, the rows with another key are
  untouched, and the arbiter column stays unique.
\<close>

lemma upsert_row_same:
  assumes "\<And>r. key r = key v \<Longrightarrow> upd r v = v"
    and "distinct (map key rows)"
  shows "filter (\<lambda>r. key r = key v) (upsert_row key upd v rows) = [v]"
  using assms(2)
proof (induction rows)
  case Nil
  then show ?case by simp
next
  case (Cons r rs)
  show ?case
  proof (cases "key r = key v")
    case True
    with Cons.prems have "key v \<notin> key ` set rs" by auto
    then have "\<forall>x\<in>set rs. key x \<noteq> key v"
      by (metis imageI)
    then have "filter (\<lambda>r. key r = key v) rs = []"
      by (simp add: filter_empty_conv)
    with True assms(1) show ?thesis by simp
  next
    case False
    with Cons show ?thesis by simp
  qed
qed

lemma upsert_row_other:
  assumes "\<And>r. key r = key v \<Longrightarrow> key (upd r v) = key v"
    and "k \<noteq> key v"
  shows "filter (\<lambda>r. key r = k) (upsert_row key upd v rows) = filter (\<lambda>r. key r = k) rows"
  using assms by (induction rows) auto

lemma upsert_row_keys:
  assumes "\<And>r. key r = key v \<Longrightarrow> key (upd r v) = key v"
  shows "map key (upsert_row key upd v rows) =
         (if key v \<in> set (map key rows) then map key rows else map key rows @ [key v])"
  using assms by (induction rows) auto

lemma upsert_row_distinct:
  assumes "\<And>r. key r = key v \<Longrightarrow> key (upd r v) = key v"
    and "distinct (map key rows)"
  shows "distinct (map key (upsert_row key upd v rows))"
  using assms by (simp add: upsert_row_keys)

lemma upsert_rows_distinct:
  "distinct (map key vs) \<Longrightarrow> set (map key vs) \<inter> set affected = {} \<Longrightarrow>
   upsert_rows key upd vs affected rows = Inr (fold (upsert_row key upd) vs rows)"
  by (induction vs arbitrary: affected rows) auto

lemma upsert_rows_duplicate:
  "\<not> (distinct (map key vs) \<and> set (map key vs) \<inter> set affected = {}) \<Longrightarrow>
   upsert_rows key upd vs affected rows = Inl CardinalityViolation"
proof (induction vs arbitrary: affected rows)
  case Nil
  then show ?case by simp
next
  case (Cons v vs)
  show ?case
  proof (cases "key v \<in> set affected")
    case True
    then show ?thesis by simp
  next
    case False
    with Cons.prems
    have "\<not> (distinct (map key vs) \<and> set (map key vs) \<inter> set (key v # affected) = {})"
      by auto
    from Cons.IH [OF this] False show ?thesis by simp
  qed
qed

subsection \<open>Heartbeats: one row per daemon type, the latest\<close>

lemma heartbeat_do_update:
  "col_daemon_type r = daemon_type hb \<Longrightarrow>
   do_update (heartbeat_stmt utc ser hb) r v =
     \<lparr>col_timestamp = utc (timestamp hb), col_daemon_type = daemon_type hb,
      col_daemon_id = daemon_id hb, col_body = ser hb\<rparr>"
  by (cases r) (simp add: heartbeat_stmt_def)

lemma add_daemon_heartbeat_step:
  "add_daemon_heartbeat utc ser hb db =
     (Inr (),
      \<lparr>contents = upsert_row col_daemon_type (do_update (heartbeat_stmt utc ser hb))
                    \<lparr>col_timestamp = utc (timestamp hb), col_daemon_type = daemon_type hb,
                     col_daemon_id = daemon_id hb, col_body = ser hb\<rparr> (contents db),
       statements = statements db + 1\<rparr>)"
  by (simp add: add_daemon_heartbeat_def execute_def heartbeat_stmt_def)

lemma add_daemon_heartbeat_rows:
  assumes "distinct (map col_daemon_type (contents db))"
  shows "filter (\<lambda>r. col_daemon_type r = daemon_type hb)
           (contents (snd (add_daemon_heartbeat utc ser hb db))) =
         [\<lparr>col_timestamp = utc (timestamp hb), col_daemon_type = daemon_type hb,
           col_daemon_id = daemon_id hb, col_body = ser hb\<rparr>]"
proof -
  let ?v = "\<lparr>col_timestamp = utc (timestamp hb), col_daemon_type = daemon_type hb,
           col_daemon_id = daemon_id hb, col_body = ser hb\<rparr>"
  have "filter (\<lambda>r. col_daemon_type r = col_daemon_type ?v)
          (upsert_row col_daemon_type (do_update (heartbeat_stmt utc ser hb)) ?v (contents db)) = [?v]"
    by (rule upsert_row_same) (simp_all add: heartbeat_do_update assms)
  then show ?thesis by (simp add: add_daemon_heartbeat_step)
qed

lemma add_daemon_heartbeat_distinct:
  assumes "distinct (map col_daemon_type (contents db))"
  shows "distinct (map col_daemon_type (contents (snd (add_daemon_heartbeat utc ser hb db))))"
  unfolding add_daemon_heartbeat_step snd_conv database.simps
  by (rule upsert_row_distinct) (simp_all add: heartbeat_do_update assms)

lemma add_daemon_heartbeats_statements:
  "statements (add_daemon_heartbeats utc ser hbs db) = statements db + length hbs"
  by (induction hbs arbitrary: db) (simp_all add: add_daemon_heartbeat_step)

lemma add_daemon_heartbeats_rows:
  assumes "distinct (map col_daemon_type (contents db))"
    and "hbs \<noteq> []"
    and "\<forall>hb\<in>set hbs. daemon_type hb = t"
  shows "filter (\<lambda>r. col_daemon_type r = t) (contents (add_daemon_heartbeats utc ser hbs db)) =
         [\<lparr>col_timestamp = utc (timestamp (last hbs)), col_daemon_type = t,
           col_daemon_id = daemon_id (last hbs), col_body = ser (last hbs)\<rparr>]"
  using assms
proof (induction hbs arbitrary: db)
  case Nil
  then show ?case by simp
next
  case (Cons hb hbs)
  let ?db = "snd (add_daemon_heartbeat utc ser hb db)"
  have t: "daemon_type hb = t" using Cons.prems(3) by simp
  have d: "distinct (map col_daemon_type (contents ?db))"
    using Cons.prems(1) by (rule add_daemon_heartbeat_distinct)
  show ?case
  proof (cases "hbs = []")
    case True
    with add_daemon_heartbeat_rows [OF Cons.prems(1), of hb utc ser] t show ?thesis by simp
  next
    case False
    with Cons.IH [OF d False] Cons.prems(3) show ?thesis by simp
  qed
qed

text \<open>
  C1. \<open>add_daemon_heartbeat\<close> executes one statement, an insert that resolves a conflict
  on \<^verbatim>\<open>daemon_type\<close>, and it succeeds. The table has a unique index on that column
  (the arbiter of the statement), so its daemon types are distinct. After any non-empty
  sequence of calls for one daemon type, the table holds exactly one row for that type,
  and its timestamp, daemon id and body are those of the heartbeat submitted last: no
  column keeps an older value.
\<close>

theorem add_daemon_heartbeat_latest:
  assumes "distinct (map col_daemon_type (contents db))"
    and "hbs \<noteq> []"
    and "\<forall>hb\<in>set hbs. daemon_type hb = t"
  shows "filter (\<lambda>r. col_daemon_type r = t) (contents (add_daemon_heartbeats utc ser hbs db)) =
           [\<lparr>col_timestamp = utc (timestamp (last hbs)), col_daemon_type = t,
             col_daemon_id = daemon_id (last hbs), col_body = ser (last hbs)\<rparr>]
         \<and> statements (add_daemon_heartbeats utc ser hbs db) = statements db + length hbs
         \<and> list_all (\<lambda>hb. \<forall>d. fst (add_daemon_heartbeat utc ser hb d) = Inr ()
                \<and> statements (snd (add_daemon_heartbeat utc ser hb d)) = statements d + 1) hbs"
proof -
  have "list_all (\<lambda>hb. \<forall>d. fst (add_daemon_heartbeat utc ser hb d) = Inr ()
                \<and> statements (snd (add_daemon_heartbeat utc ser hb d)) = statements d + 1) hbs"
    by (simp add: list_all_iff add_daemon_heartbeat_step)
  with add_daemon_heartbeats_rows [OF assms] add_daemon_heartbeats_statements
  show ?thesis by blast
qed

text \<open>
  The theorem at a table that holds an older row of the type, and two heartbeats.
\<close>

theorem add_daemon_heartbeat_latest_witness:
  "distinct (map col_daemon_type
     (contents \<lparr>contents = [\<lparr>col_timestamp = (5::int), col_daemon_type = ''SENSOR'',
                               col_daemon_id = ''a'', col_body = ''old''\<rparr>], statements = 0\<rparr>))
   \<and> [\<lparr>timestamp = (7::int), daemon_type = ''SENSOR'', daemon_id = ''b''\<rparr>,
       \<lparr>timestamp = 9, daemon_type = ''SENSOR'', daemon_id = ''c''\<rparr>] \<noteq> []
   \<and> filter (\<lambda>r. col_daemon_type r = ''SENSOR'')
        (contents (add_daemon_heartbeats (\<lambda>x. x + 1) daemon_id
           [\<lparr>timestamp = (7::int), daemon_type = ''SENSOR'', daemon_id = ''b''\<rparr>,
            \<lparr>timestamp = 9, daemon_type = ''SENSOR'', daemon_id = ''c''\<rparr>]
           \<lparr>contents = [\<lparr>col_timestamp = (5::int), col_daemon_type = ''SENSOR'',
                          col_daemon_id = ''a'', col_body = ''old''\<rparr>], statements = 0\<rparr>)) =
      [\<lparr>col_timestamp = 10, col_daemon_type = ''SENSOR'', col_daemon_id = ''c'', col_body = ''c''\<rparr>]"
  using add_daemon_heartbeat_latest
    [of "\<lparr>contents = [\<lparr>col_timestamp = (5::int), col_daemon_type = ''SENSOR'',
                          col_daemon_id = ''a'', col_body = ''old''\<rparr>], statements = 0\<rparr>"
        "[\<lparr>timestamp = (7::int), daemon_type = ''SENSOR'', daemon_id = ''b''\<rparr>,
          \<lparr>timestamp = 9, daemon_type = ''SENSOR'', daemon_id = ''c''\<rparr>]"
        "''SENSOR''" "\<lambda>x. x + 1" daemon_id]
  by simp

subsection \<open>The key-value store: lemmas\<close>

lemma fold_upsert_row_keys_distinct:
  assumes "\<And>r v. key r = key v \<Longrightarrow> key (upd r v) = key v"
    and "distinct (map key rows)"
  shows "distinct (map key (fold (upsert_row key upd) vs rows))"
  using assms(2)
proof (induction vs arbitrary: rows)
  case Nil
  then show ?case by simp
next
  case (Cons v vs)
  have "distinct (map key (upsert_row key upd v rows))"
    using Cons.prems by (intro upsert_row_distinct assms(1))
  then show ?case by (simp add: Cons.IH)
qed

lemma fold_upsert_row_other:
  assumes "\<And>r v. key r = key v \<Longrightarrow> key (upd r v) = key v"
    and "k \<notin> key ` set vs"
  shows "filter (\<lambda>r. key r = k) (fold (upsert_row key upd) vs rows) = filter (\<lambda>r. key r = k) rows"
  using assms(2)
proof (induction vs arbitrary: rows)
  case Nil
  then show ?case by simp
next
  case (Cons v vs)
  then have "k \<noteq> key v" and "k \<notin> key ` set vs" by auto
  then show ?case
    by (simp add: Cons.IH upsert_row_other assms(1))
qed

lemma fold_upsert_row_same:
  assumes "\<And>r v. key r = key v \<Longrightarrow> upd r v = v"
    and "distinct (map key vs)"
    and "distinct (map key rows)"
    and "v \<in> set vs"
  shows "filter (\<lambda>r. key r = key v) (fold (upsert_row key upd) vs rows) = [v]"
  using assms(2-4)
proof (induction vs arbitrary: rows)
  case Nil
  then show ?case by simp
next
  case (Cons a vs)
  have keep: "\<And>r v. key r = key v \<Longrightarrow> key (upd r v) = key v"
    by (simp add: assms(1))
  have d: "distinct (map key (upsert_row key upd a rows))"
    using Cons.prems(2) by (intro upsert_row_distinct keep)
  show ?case
  proof (cases "v \<in> set vs")
    case True
    with Cons.prems(1) Cons.IH [OF _ d True] show ?thesis by simp
  next
    case False
    with Cons.prems(3) have "a = v" by simp
    with Cons.prems(1) have "key v \<notin> key ` set vs" by simp
    then have "filter (\<lambda>r. key r = key v) (fold (upsert_row key upd) vs (upsert_row key upd v rows)) =
               filter (\<lambda>r. key r = key v) (upsert_row key upd v rows)"
      by (intro fold_upsert_row_other keep)
    also have "\<dots> = [v]"
      using Cons.prems(2) by (intro upsert_row_same assms(1))
    finally show ?thesis using \<open>a = v\<close> by simp
  qed
qed

lemma str_items_str_mapping:
  "str_items (map (\<lambda>(k, v). (PyStr k, PyStr v)) items) = Some items"
  by (induction items) auto

lemma mapping_param_str_mapping: "mapping_param (str_mapping items) = Inr items"
  by (simp add: mapping_param_def str_mapping_def str_items_str_mapping)

lemma str_items_Some:
  "str_items items = Some kvs \<Longrightarrow> items = map (\<lambda>(k, v). (PyStr k, PyStr v)) kvs"
  by (induction items arbitrary: kvs rule: str_items.induct) (auto split: option.splits)

lemma mapping_param_Inr: "mapping_param obj = Inr kvs \<Longrightarrow> obj = str_mapping kvs"
  by (auto simp: mapping_param_def str_mapping_def split: py_obj.splits option.splits
      dest: str_items_Some)

lemma kvs_do_update:
  "kvs_key r = kvs_key v \<Longrightarrow> do_update (kvs_upsert_stmt items) r v = v"
  by (cases r, cases v) (simp add: kvs_upsert_stmt_def)

lemma kvs_proposed_keys:
  "map kvs_key (proposed (kvs_upsert_stmt items)) = map fst items"
  by (simp add: kvs_upsert_stmt_def case_prod_unfold)

lemma kvs_set_distinct:
  assumes "distinct (map fst items)"
  shows "kvs_set (str_mapping items) db =
     (Inr (),
      \<lparr>contents = fold (upsert_row kvs_key (do_update (kvs_upsert_stmt items)))
                    (proposed (kvs_upsert_stmt items)) (contents db),
       statements = statements db + 1\<rparr>)"
proof -
  have "upsert_rows kvs_key (do_update (kvs_upsert_stmt items)) (proposed (kvs_upsert_stmt items))
          [] (contents db) =
        Inr (fold (upsert_row kvs_key (do_update (kvs_upsert_stmt items)))
               (proposed (kvs_upsert_stmt items)) (contents db))"
    by (rule upsert_rows_distinct) (simp_all add: kvs_proposed_keys assms)
  moreover have "index_elements (kvs_upsert_stmt items) = kvs_key"
    by (simp add: kvs_upsert_stmt_def)
  ultimately show ?thesis
    by (simp add: kvs_set_def mapping_param_str_mapping execute_def)
qed

lemma kvs_set_duplicate:
  assumes "\<not> distinct (map fst items)"
  shows "kvs_set (str_mapping items) db =
     (Inl CardinalityViolation, db\<lparr>statements := statements db + 1\<rparr>)"
proof -
  have "upsert_rows kvs_key (do_update (kvs_upsert_stmt items)) (proposed (kvs_upsert_stmt items))
          [] (contents db) = Inl CardinalityViolation"
    by (rule upsert_rows_duplicate) (simp add: kvs_proposed_keys assms)
  moreover have "index_elements (kvs_upsert_stmt items) = kvs_key"
    by (simp add: kvs_upsert_stmt_def)
  ultimately show ?thesis
    by (simp add: kvs_set_def mapping_param_str_mapping execute_def)
qed

lemma kvs_set_rows:
  assumes "distinct (map fst items)"
    and "distinct (map kvs_key (contents db))"
    and "(k, v) \<in> set items"
  shows "filter (\<lambda>r. kvs_key r = k) (contents (snd (kvs_set (str_mapping items) db))) =
         [\<lparr>kvs_key = k, kvs_value = v\<rparr>]"
proof -
  let ?stmt = "kvs_upsert_stmt items"
  let ?row = "\<lparr>kvs_key = k, kvs_value = v\<rparr>"
  have "?row \<in> set (proposed ?stmt)"
    using assms(3) by (force simp: kvs_upsert_stmt_def)
  moreover have "distinct (map kvs_key (proposed ?stmt))"
    using assms(1) by (simp add: kvs_proposed_keys)
  ultimately
  have "filter (\<lambda>r. kvs_key r = kvs_key ?row)
          (fold (upsert_row kvs_key (do_update ?stmt)) (proposed ?stmt) (contents db)) = [?row]"
    using assms(2) by (intro fold_upsert_row_same kvs_do_update)
  then show ?thesis
    by (simp add: kvs_set_distinct [OF assms(1)])
qed

lemma mapping_param_Inl: "mapping_param obj = Inl e \<Longrightarrow> e = CheckError"
  by (auto simp: mapping_param_def split: py_obj.splits option.splits)

subsection \<open>The key-value store: what a batch stores\<close>

text \<open>
  C2. For every mapping of string keys to string values (its keys are unique, being a
  mapping's), \<open>kvs_set\<close> succeeds and executes one statement, and afterwards, for every
  key of the mapping, the table holds exactly one row for that key, with the mapping's
  value, whether or not a row for that key existed before. The table has a unique index
  on \<^verbatim>\<open>key\<close>, the arbiter of the statement.
\<close>

theorem kvs_set_stores_mapping:
  assumes "distinct (map fst items)"
    and "distinct (map kvs_key (contents db))"
    and "(k, v) \<in> set items"
  shows "fst (kvs_set (str_mapping items) db) = Inr ()
         \<and> statements (snd (kvs_set (str_mapping items) db)) = statements db + 1
         \<and> filter (\<lambda>r. kvs_key r = k) (contents (snd (kvs_set (str_mapping items) db))) =
             [\<lparr>kvs_key = k, kvs_value = v\<rparr>]"
  using kvs_set_rows [OF assms] by (simp add: kvs_set_distinct [OF assms(1)])

text \<open>
  The theorem at a mapping of two keys, one of them stored before with another value.
\<close>

theorem kvs_set_stores_mapping_witness:
  "distinct (map fst [(''cursor'', ''7''), (''flag'', ''on'')])
   \<and> distinct (map kvs_key
         (contents \<lparr>contents = [\<lparr>kvs_key = ''flag'', kvs_value = ''off''\<rparr>], statements = 3\<rparr>))
   \<and> (''flag'', ''on'') \<in> set [(''cursor'', ''7''), (''flag'', ''on'')]
   \<and> kvs_set (str_mapping [(''cursor'', ''7''), (''flag'', ''on'')])
         \<lparr>contents = [\<lparr>kvs_key = ''flag'', kvs_value = ''off''\<rparr>], statements = 3\<rparr> =
       (Inr (), \<lparr>contents = [\<lparr>kvs_key = ''flag'', kvs_value = ''on''\<rparr>,
                              \<lparr>kvs_key = ''cursor'', kvs_value = ''7''\<rparr>], statements = 4\<rparr>)
   \<and> filter (\<lambda>r. kvs_key r = ''flag'')
         (contents (snd (kvs_set (str_mapping [(''cursor'', ''7''), (''flag'', ''on'')])
            \<lparr>contents = [\<lparr>kvs_key = ''flag'', kvs_value = ''off''\<rparr>], statements = 3\<rparr>))) =
       [\<lparr>kvs_key = ''flag'', kvs_value = ''on''\<rparr>]"
  using kvs_set_stores_mapping
    [of "[(''cursor'', ''7''), (''flag'', ''on'')]"
        "\<lparr>contents = [\<lparr>kvs_key = ''flag'', kvs_value = ''off''\<rparr>], statements = 3\<rparr>"
        "''flag''" "''on''"]
  by (simp add: kvs_set_def mapping_param_def str_mapping_def execute_def kvs_upsert_stmt_def)

text \<open>
  C6, as amended. A mapping holds every key once, so the last occurrence of a key in a
  batch is its only one, and \<open>kvs_set\<close> persists exactly that value for the key. Items
  that name a key twice do not resolve to the last value: the one statement is rejected
  with a cardinality violation and the rows stay as they were.
\<close>

theorem kvs_set_batch_keys:
  assumes "distinct (map kvs_key (contents db))"
  shows "(distinct (map fst items) \<longrightarrow>
            (\<forall>k v. map_of (rev items) k = Some v \<longrightarrow>
               filter (\<lambda>r. kvs_key r = k) (contents (snd (kvs_set (str_mapping items) db))) =
                 [\<lparr>kvs_key = k, kvs_value = v\<rparr>]))
         \<and> (\<not> distinct (map fst items) \<longrightarrow>
              kvs_set (str_mapping items) db =
                (Inl CardinalityViolation, db\<lparr>statements := statements db + 1\<rparr>))"
proof (intro conjI impI allI)
  fix k v
  assume d: "distinct (map fst items)" and "map_of (rev items) k = Some v"
  then have "(k, v) \<in> set items"
    by (auto dest: map_of_SomeD)
  with d assms show "filter (\<lambda>r. kvs_key r = k) (contents (snd (kvs_set (str_mapping items) db))) =
                 [\<lparr>kvs_key = k, kvs_value = v\<rparr>]"
    by (intro kvs_set_rows)
next
  assume "\<not> distinct (map fst items)"
  then show "kvs_set (str_mapping items) db =
                (Inl CardinalityViolation, db\<lparr>statements := statements db + 1\<rparr>)"
    by (rule kvs_set_duplicate)
qed

text \<open>
  The theorem at a batch of two distinct keys, and at items that name a key twice.
\<close>

theorem kvs_set_batch_keys_witness:
  "distinct (map kvs_key
      (contents \<lparr>contents = [\<lparr>kvs_key = ''a'', kvs_value = ''0''\<rparr>], statements = 0\<rparr>))
   \<and> distinct (map fst [(''a'', ''1''), (''b'', ''2'')])
   \<and> map_of (rev [(''a'', ''1''), (''b'', ''2'')]) ''a'' = Some ''1''
   \<and> filter (\<lambda>r. kvs_key r = ''a'')
         (contents (snd (kvs_set (str_mapping [(''a'', ''1''), (''b'', ''2'')])
            \<lparr>contents = [\<lparr>kvs_key = ''a'', kvs_value = ''0''\<rparr>], statements = 0\<rparr>))) =
       [\<lparr>kvs_key = ''a'', kvs_value = ''1''\<rparr>]
   \<and> \<not> distinct (map fst [(''a'', ''1''), (''a'', ''2'')])
   \<and> kvs_set (str_mapping [(''a'', ''1''), (''a'', ''2'')])
         \<lparr>contents = [\<lparr>kvs_key = ''a'', kvs_value = ''0''\<rparr>], statements = 0\<rparr> =
       (Inl CardinalityViolation,
        \<lparr>contents = [\<lparr>kvs_key = ''a'', kvs_value = ''0''\<rparr>], statements = 1\<rparr>)"
  using kvs_set_batch_keys
    [of "\<lparr>contents = [\<lparr>kvs_key = ''a'', kvs_value = ''0''\<rparr>], statements = 0\<rparr>"
        "[(''a'', ''1''), (''b'', ''2'')]"]
    kvs_set_batch_keys
    [of "\<lparr>contents = [\<lparr>kvs_key = ''a'', kvs_value = ''0''\<rparr>], statements = 0\<rparr>"
        "[(''a'', ''1''), (''a'', ''2'')]"]
  by simp

text \<open>
  C6 as it was stated fails: for the items \<^verbatim>\<open>("a", "1"), ("a", "2")\<close>, which no
  \<^verbatim>\<open>dict\<close> yields but a mapping of another class can, the call raises and the value
  of the last occurrence is not persisted.
\<close>

theorem kvs_set_last_occurrence_counterexample:
  "fst (kvs_set (PyMapping [(PyStr ''a'', PyStr ''1''), (PyStr ''a'', PyStr ''2'')])
          \<lparr>contents = [], statements = 0\<rparr>) = Inl CardinalityViolation
   \<and> filter (\<lambda>r. kvs_key r = ''a'')
         (contents (snd (kvs_set (PyMapping [(PyStr ''a'', PyStr ''1''), (PyStr ''a'', PyStr ''2'')])
            \<lparr>contents = [], statements = 0\<rparr>))) \<noteq>
       [\<lparr>kvs_key = ''a'', kvs_value = ''2''\<rparr>]"
  by (simp add: kvs_set_def mapping_param_def execute_def kvs_upsert_stmt_def)

text \<open>
  C9. For every mapping passed to \<open>kvs_set\<close> and every key that is not in the mapping,
  the rows stored for that key (whether there is one, and its value) are the same after
  the call as before.
\<close>

theorem kvs_set_frame:
  assumes "k \<notin> fst ` set items"
  shows "filter (\<lambda>r. kvs_key r = k) (contents (snd (kvs_set (str_mapping items) db))) =
         filter (\<lambda>r. kvs_key r = k) (contents db)"
proof (cases "distinct (map fst items)")
  case True
  have "k \<notin> kvs_key ` set (proposed (kvs_upsert_stmt items))"
    using assms by (simp add: kvs_proposed_keys flip: set_map)
  then have "filter (\<lambda>r. kvs_key r = k)
          (fold (upsert_row kvs_key (do_update (kvs_upsert_stmt items)))
             (proposed (kvs_upsert_stmt items)) (contents db)) =
        filter (\<lambda>r. kvs_key r = k) (contents db)"
    by (intro fold_upsert_row_other) (simp add: kvs_do_update)
  then show ?thesis by (simp add: kvs_set_distinct [OF True])
next
  case False
  then show ?thesis by (simp add: kvs_set_duplicate)
qed

text \<open>
  The theorem at a table that holds a row for a key outside the mapping.
\<close>

theorem kvs_set_frame_witness:
  "''other'' \<notin> fst ` set [(''cursor'', ''7''), (''flag'', ''on'')]
   \<and> filter (\<lambda>r. kvs_key r = ''other'')
         (contents (snd (kvs_set (str_mapping [(''cursor'', ''7''), (''flag'', ''on'')])
            \<lparr>contents = [\<lparr>kvs_key = ''other'', kvs_value = ''x''\<rparr>,
                           \<lparr>kvs_key = ''flag'', kvs_value = ''off''\<rparr>], statements = 0\<rparr>))) =
       [\<lparr>kvs_key = ''other'', kvs_value = ''x''\<rparr>]"
  using kvs_set_frame
    [of "''other''" "[(''cursor'', ''7''), (''flag'', ''on'')]"
        "\<lparr>contents = [\<lparr>kvs_key = ''other'', kvs_value = ''x''\<rparr>,
                       \<lparr>kvs_key = ''flag'', kvs_value = ''off''\<rparr>], statements = 0\<rparr>"]
  by simp

text \<open>
  C10. For every argument that is not a mapping with string keys and string values,
  \<open>kvs_set\<close> raises the check's error before any statement is built or executed: the
  database is returned as it was, its statement counter included.
\<close>

theorem kvs_set_check_first:
  assumes "\<forall>items. pairs \<noteq> str_mapping items"
  shows "kvs_set pairs db = (Inl CheckError, db)"
proof (cases "mapping_param pairs")
  case (Inl e)
  then show ?thesis by (simp add: kvs_set_def mapping_param_Inl)
next
  case (Inr kvs)
  then have "pairs = str_mapping kvs" by (rule mapping_param_Inr)
  with assms show ?thesis by blast
qed

text \<open>
  The theorem at a mapping with an integer value, and at a list.
\<close>

theorem kvs_set_check_first_witness:
  "(\<forall>items. PyMapping [(PyStr ''k'', PyInt 1)] \<noteq> str_mapping items)
   \<and> (\<forall>items. PyList [PyStr ''k''] \<noteq> str_mapping items)
   \<and> kvs_set (PyMapping [(PyStr ''k'', PyInt 1)])
         \<lparr>contents = [\<lparr>kvs_key = ''k'', kvs_value = ''v''\<rparr>], statements = 2\<rparr> =
       (Inl CheckError, \<lparr>contents = [\<lparr>kvs_key = ''k'', kvs_value = ''v''\<rparr>], statements = 2\<rparr>)
   \<and> kvs_set (PyList [PyStr ''k''])
         \<lparr>contents = [\<lparr>kvs_key = ''k'', kvs_value = ''v''\<rparr>], statements = 2\<rparr> =
       (Inl CheckError, \<lparr>contents = [\<lparr>kvs_key = ''k'', kvs_value = ''v''\<rparr>], statements = 2\<rparr>)"
proof -
  have a: "\<forall>items. PyMapping [(PyStr ''k'', PyInt 1)] \<noteq> str_mapping items"
    by (auto simp: str_mapping_def)
  have b: "\<forall>items. PyList [PyStr ''k''] \<noteq> str_mapping items"
    by (simp add: str_mapping_def)
  show ?thesis
    using a b kvs_set_check_first [OF a] kvs_set_check_first [OF b] by simp
qed

subsection \<open>The migration index cache\<close>

lemma mark_index_built_cache:
  "index_migration_cache (fst (mark_index_built n st)) n = None"
  by (cases st) (auto simp: mark_index_built_def Let_def)

lemma mark_index_built_marker:
  "contents (snd (mark_index_built n st)) n = Some True"
  by (cases st) (simp add: mark_index_built_def Let_def SqlRunStorage_mark_index_built_def)

lemma has_built_index_miss:
  assumes "index_migration_cache self n = None"
  shows "has_built_index n (self, db) =
     (contents db n = Some True,
      (self\<lparr>index_migration_cache := (index_migration_cache self)(n \<mapsto> contents db n = Some True)\<rparr>,
       db\<lparr>statements := statements db + 1\<rparr>))"
  using assms by (simp add: has_built_index_def SqlRunStorage_has_built_index_def)

lemma has_built_index_hit:
  assumes "index_migration_cache self n = Some b"
  shows "has_built_index n (self, db) = (b, (self, db))"
  using assms by (simp add: has_built_index_def)

text \<open>
  C3. For every migration name and every state of the handle and the database,
  \<open>has_built_index\<close> right after \<open>mark_index_built\<close> returns true, also when
  \<open>has_built_index\<close> ran before the mark (and cached what it found): after the mark the
  marker is persisted as built and the cache has no entry for the name, so the next
  \<open>has_built_index\<close> issues the query again.
\<close>

theorem mark_then_has_built_index:
  "fst (has_built_index n (mark_index_built n st)) = True
   \<and> fst (has_built_index n (mark_index_built n (snd (has_built_index n st)))) = True
   \<and> index_migration_cache (fst (mark_index_built n st)) n = None
   \<and> contents (snd (mark_index_built n st)) n = Some True
   \<and> statements (snd (snd (has_built_index n (mark_index_built n st)))) =
       statements (snd (mark_index_built n st)) + 1"
proof -
  have *: "has_built_index n (mark_index_built n s) =
       (True,
        ((fst (mark_index_built n s))\<lparr>index_migration_cache :=
            (index_migration_cache (fst (mark_index_built n s)))(n \<mapsto> True)\<rparr>,
         (snd (mark_index_built n s))\<lparr>statements := statements (snd (mark_index_built n s)) + 1\<rparr>))"
    for s
    using has_built_index_miss [OF mark_index_built_cache, of n s "snd (mark_index_built n s)"]
    by (simp add: mark_index_built_marker)
  show ?thesis
    by (simp add: * mark_index_built_cache mark_index_built_marker)
qed

text \<open>
  C8, as amended. When the cache of a handle has no entry for a name, \<open>has_built_index\<close>
  queries the persisted marker (one statement), stores the result in the cache and
  returns it. On the handle it leaves, \<open>has_built_index\<close> for that name returns the
  cached boolean whatever the database holds by then, executes no statement and leaves
  the handle as it is; so this holds for every later call, until \<open>mark_index_built\<close>
  is called on the handle for that name.
\<close>

theorem has_built_index_cached:
  assumes "index_migration_cache self n = None"
  shows "fst (has_built_index n (self, db)) = fst (SqlRunStorage_has_built_index n db)
   \<and> snd (snd (has_built_index n (self, db))) = snd (SqlRunStorage_has_built_index n db)
   \<and> statements (snd (snd (has_built_index n (self, db)))) = statements db + 1
   \<and> fst (snd (has_built_index n (self, db))) =
       self\<lparr>index_migration_cache :=
              (index_migration_cache self)(n \<mapsto> fst (has_built_index n (self, db)))\<rparr>
   \<and> (\<forall>db'. has_built_index n (fst (snd (has_built_index n (self, db))), db') =
         (fst (has_built_index n (self, db)), (fst (snd (has_built_index n (self, db))), db')))"
  by (simp add: has_built_index_miss [OF assms] has_built_index_hit
      SqlRunStorage_has_built_index_def)

text \<open>
  The theorem at a new handle and an empty marker table; the later call sees a database
  where the marker has been set in between, and still answers false.
\<close>

theorem has_built_index_cached_witness:
  "index_migration_cache
     \<lparr>postgres_url = ''postgresql://db'', should_autocreate_tables = True,
      engine = init_engine ''postgresql://db'', index_migration_cache = Map.empty\<rparr> ''m'' = None
   \<and> fst (has_built_index ''m''
         (\<lparr>postgres_url = ''postgresql://db'', should_autocreate_tables = True,
           engine = init_engine ''postgresql://db'', index_migration_cache = Map.empty\<rparr>,
          \<lparr>contents = Map.empty, statements = 0\<rparr>)) = False
   \<and> statements (snd (snd (has_built_index ''m''
         (\<lparr>postgres_url = ''postgresql://db'', should_autocreate_tables = True,
           engine = init_engine ''postgresql://db'', index_migration_cache = Map.empty\<rparr>,
          \<lparr>contents = Map.empty, statements = 0\<rparr>)))) = 1
   \<and> has_built_index ''m''
         (fst (snd (has_built_index ''m''
            (\<lparr>postgres_url = ''postgresql://db'', should_autocreate_tables = True,
              engine = init_engine ''postgresql://db'', index_migration_cache = Map.empty\<rparr>,
             \<lparr>contents = Map.empty, statements = 0\<rparr>))),
          \<lparr>contents = [''m'' \<mapsto> True], statements = 5\<rparr>) =
       (False,
        (fst (snd (has_built_index ''m''
            (\<lparr>postgres_url = ''postgresql://db'', should_autocreate_tables = True,
              engine = init_engine ''postgresql://db'', index_migration_cache = Map.empty\<rparr>,
             \<lparr>contents = Map.empty, statements = 0\<rparr>))),
         \<lparr>contents = [''m'' \<mapsto> True], statements = 5\<rparr>))"
  using has_built_index_cached
    [of "\<lparr>postgres_url = ''postgresql://db'', should_autocreate_tables = True,
          engine = init_engine ''postgresql://db'', index_migration_cache = Map.empty\<rparr>"
        "''m''" "\<lparr>contents = Map.empty, statements = 0\<rparr>"]
  by (simp add: has_built_index_def SqlRunStorage_has_built_index_def)

text \<open>
  C8 as it was stated fails: a later call on the same handle, after
  \<open>mark_index_built\<close> on that handle, returns true where false was cached, and it
  executes a statement (the third: the first query, the mark, the second query).
\<close>

theorem has_built_index_after_mark_counterexample:
  "fst (has_built_index ''m''
         (\<lparr>postgres_url = ''postgresql://db'', should_autocreate_tables = True,
           engine = init_engine ''postgresql://db'', index_migration_cache = Map.empty\<rparr>,
          \<lparr>contents = Map.empty, statements = 0\<rparr>)) = False
   \<and> fst (has_built_index ''m'' (mark_index_built ''m'' (snd (has_built_index ''m''
         (\<lparr>postgres_url = ''postgresql://db'', should_autocreate_tables = True,
           engine = init_engine ''postgresql://db'', index_migration_cache = Map.empty\<rparr>,
          \<lparr>contents = Map.empty, statements = 0\<rparr>))))) = True
   \<and> statements (snd (mark_index_built ''m'' (snd (has_built_index ''m''
         (\<lparr>postgres_url = ''postgresql://db'', should_autocreate_tables = True,
           engine = init_engine ''postgresql://db'', index_migration_cache = Map.empty\<rparr>,
          \<lparr>contents = Map.empty, statements = 0\<rparr>))))) = 2
   \<and> statements (snd (snd (has_built_index ''m'' (mark_index_built ''m'' (snd (has_built_index ''m''
         (\<lparr>postgres_url = ''postgresql://db'', should_autocreate_tables = True,
           engine = init_engine ''postgresql://db'', index_migration_cache = Map.empty\<rparr>,
          \<lparr>contents = Map.empty, statements = 0\<rparr>))))))) = 3"
  by (simp add: has_built_index_def mark_index_built_def Let_def
      SqlRunStorage_has_built_index_def SqlRunStorage_mark_index_built_def)

subsection \<open>Bootstrap of the schema\<close>

lemma create_all_alembic_version: "alembic_version (create_all names c) = alembic_version c"
  by (induction names arbitrary: c) simp_all

lemma create_all_table_names: "set (table_names (create_all names c)) = set (table_names c) \<union> set names"
  by (induction names arbitrary: c) auto

lemma create_all_existing:
  "set names \<subseteq> set (table_names c) \<Longrightarrow> create_all names c = c"
  by (induction names arbitrary: c) simp_all

lemma init_db_table_names:
  "set (table_names (init_db metadata revision c)) = set (table_names c) \<union> set metadata"
  by (simp add: init_db_def stamp_alembic_rev_def create_all_table_names)

lemma init_db_alembic_version: "alembic_version (init_db metadata revision c) = Some revision"
  by (simp add: init_db_def stamp_alembic_rev_def)

lemma init_fresh:
  assumes "''runs'' \<notin> set (table_names c)"
  shows "PostgresRunStorage_init metadata revision migrate optimize u True c =
         Inr (optimize (migrate
           (\<lparr>postgres_url = u, should_autocreate_tables = True,
             engine = init_engine u, index_migration_cache = Map.empty\<rparr>,
            init_db metadata revision c)))"
  using assms by (simp add: PostgresRunStorage_init_def)

lemma init_initialized:
  assumes "''runs'' \<in> set (table_names c)" and "''instance_info'' \<in> set (table_names c)"
  shows "PostgresRunStorage_init metadata revision migrate optimize u a c =
         Inr (\<lparr>postgres_url = u, should_autocreate_tables = a,
               engine = init_engine u, index_migration_cache = Map.empty\<rparr>, c)"
  using assms by (simp add: PostgresRunStorage_init_def Let_def)

text \<open>
  C4. Constructing a store with autocreate enabled on a database without the table
  \<^verbatim>\<open>runs\<close> succeeds, creates every table of the store's metadata that is missing and
  stamps the revision. Constructing a second store on the database the first one left
  succeeds and leaves the catalogue exactly as it was. The store's metadata declares
  \<^verbatim>\<open>runs\<close> and \<^verbatim>\<open>instance_info\<close>; the inherited \<open>migrate\<close> and \<open>optimize\<close> work on
  rows and leave the catalogue alone.
\<close>

theorem init_bootstrap_idempotent:
  assumes "''runs'' \<in> set metadata" and "''instance_info'' \<in> set metadata"
    and "''runs'' \<notin> set (table_names c)"
    and "\<forall>s. snd (migrate s) = snd s" and "\<forall>s. snd (optimize s) = snd s"
  shows "(case PostgresRunStorage_init metadata revision migrate optimize u True c of
            Inl e \<Rightarrow> False
          | Inr (self, c') \<Rightarrow>
              set (table_names c') = set (table_names c) \<union> set metadata
              \<and> alembic_version c' = Some revision
              \<and> (case PostgresRunStorage_init metadata revision migrate optimize u' a' c' of
                    Inl e \<Rightarrow> False
                  | Inr (self', c'') \<Rightarrow> c'' = c'))"
proof -
  let ?c = "init_db metadata revision c"
  let ?st = "optimize (migrate
           (\<lparr>postgres_url = u, should_autocreate_tables = True,
             engine = init_engine u, index_migration_cache = Map.empty\<rparr>, ?c))"
  have first: "PostgresRunStorage_init metadata revision migrate optimize u True c = Inr ?st"
    using assms(3) by (rule init_fresh)
  have "snd ?st = ?c"
    using assms(4,5) by (metis snd_conv)
  then obtain self' where st: "?st = (self', ?c)"
    by (cases ?st) simp
  have "''runs'' \<in> set (table_names ?c)" and "''instance_info'' \<in> set (table_names ?c)"
    using assms(1,2) by (simp_all add: init_db_table_names)
  then have second: "PostgresRunStorage_init metadata revision migrate optimize u' a' ?c =
      Inr (\<lparr>postgres_url = u', should_autocreate_tables = a',
               engine = init_engine u', index_migration_cache = Map.empty\<rparr>, ?c)"
    by (rule init_initialized)
  show ?thesis
    by (simp add: first st second init_db_table_names init_db_alembic_version)
qed

text \<open>
  The theorem at a database that holds another role's table only.
\<close>

theorem init_bootstrap_idempotent_witness:
  "''runs'' \<in> set [''runs'', ''instance_info'', ''kvs'']
   \<and> ''instance_info'' \<in> set [''runs'', ''instance_info'', ''kvs'']
   \<and> ''runs'' \<notin> set (table_names \<lparr>table_names = [''event_logs''], alembic_version = None\<rparr>)
   \<and> (\<forall>s. snd ((\<lambda>s. (fst s\<lparr>index_migration_cache := [''m'' \<mapsto> True]\<rparr>, snd s)) s) = snd s)
   \<and> (\<forall>s::PostgresRunStorage \<times> catalogue. snd ((\<lambda>s. s) s) = snd s)
   \<and> (case PostgresRunStorage_init [''runs'', ''instance_info'', ''kvs''] ''rev1''
             (\<lambda>s. (fst s\<lparr>index_migration_cache := [''m'' \<mapsto> True]\<rparr>, snd s)) (\<lambda>s. s)
             ''postgresql://db'' True \<lparr>table_names = [''event_logs''], alembic_version = None\<rparr> of
          Inl e \<Rightarrow> False
        | Inr (self, c') \<Rightarrow>
            c' = \<lparr>table_names = [''event_logs'', ''runs'', ''instance_info'', ''kvs''],
                  alembic_version = Some ''rev1''\<rparr>
            \<and> (case PostgresRunStorage_init [''runs'', ''instance_info'', ''kvs''] ''rev1''
                     (\<lambda>s. (fst s\<lparr>index_migration_cache := [''m'' \<mapsto> True]\<rparr>, snd s)) (\<lambda>s. s)
                     ''postgresql://db'' True c' of
                  Inl e \<Rightarrow> False
                | Inr (self', c'') \<Rightarrow> c'' = c'))"
  using init_bootstrap_idempotent
    [where metadata = "[''runs'', ''instance_info'', ''kvs'']"
       and c = "\<lparr>table_names = [''event_logs''], alembic_version = None\<rparr>"
       and migrate = "\<lambda>s. (fst s\<lparr>index_migration_cache := [''m'' \<mapsto> True]\<rparr>, snd s)"
       and optimize = "\<lambda>s. s" and revision = "''rev1''"
       and u = "''postgresql://db''" and u' = "''postgresql://db''" and a' = True]
  by (simp add: PostgresRunStorage_init_def Let_def init_db_def stamp_alembic_rev_def)

text \<open>
  C5. Constructing a store with autocreate enabled on a database that has the table
  \<^verbatim>\<open>runs\<close> but not \<^verbatim>\<open>instance_info\<close> succeeds, adds the table \<^verbatim>\<open>instance_info\<close> and
  nothing else, and leaves the stamped revision as it was.
\<close>

theorem init_creates_instance_info_only:
  assumes "''runs'' \<in> set (table_names c)" and "''instance_info'' \<notin> set (table_names c)"
  shows "(case PostgresRunStorage_init metadata revision migrate optimize u True c of
            Inl e \<Rightarrow> False
          | Inr (self, c') \<Rightarrow>
              table_names c' = table_names c @ [''instance_info'']
              \<and> alembic_version c' = alembic_version c
              \<and> c' = c\<lparr>table_names := table_names c @ [''instance_info'']\<rparr>)"
  using assms by (simp add: PostgresRunStorage_init_def Let_def create_table_def)

text \<open>
  The theorem at a database stamped with an older revision.
\<close>

theorem init_creates_instance_info_only_witness:
  "''runs'' \<in> set (table_names
      \<lparr>table_names = [''runs'', ''event_logs''], alembic_version = Some ''rev0''\<rparr>)
   \<and> ''instance_info'' \<notin> set (table_names
      \<lparr>table_names = [''runs'', ''event_logs''], alembic_version = Some ''rev0''\<rparr>)
   \<and> (case PostgresRunStorage_init [''runs'', ''instance_info'', ''kvs''] ''rev1'' (\<lambda>s. s) (\<lambda>s. s)
             ''postgresql://db'' True
             \<lparr>table_names = [''runs'', ''event_logs''], alembic_version = Some ''rev0''\<rparr> of
          Inl e \<Rightarrow> False
        | Inr (self, c') \<Rightarrow>
            c' = \<lparr>table_names = [''runs'', ''event_logs'', ''instance_info''],
                  alembic_version = Some ''rev0''\<rparr>)"
  using init_creates_instance_info_only
    [where c = "\<lparr>table_names = [''runs'', ''event_logs''], alembic_version = Some ''rev0''\<rparr>"
       and metadata = "[''runs'', ''instance_info'', ''kvs'']" and revision = "''rev1''"
       and migrate = "\<lambda>s. s" and optimize = "\<lambda>s. s" and u = "''postgresql://db''"]
  by (simp add: PostgresRunStorage_init_def Let_def create_table_def)

subsection \<open>The long-lived-connection mode keeps the configured options\<close>

text \<open>
  C7. For every requested statement timeout, \<open>optimize_for_dagit\<close> gives the new engine
  one connection argument, \<^verbatim>\<open>options\<close>. When the URL of the engine in use configured a
  (non-empty) options string, the new string is the timeout directive, a space, and that
  string; when it configured none (no \<^verbatim>\<open>options\<close> entry, or an empty one) it is the
  timeout directive alone.
\<close>

theorem optimize_for_dagit_options:
  "connect_args (engine (optimize_for_dagit url_query pg_statement_timeout t r self)) =
     [(''options'',
       (case url_query (url (engine self)) ''options'' of
          None \<Rightarrow> pg_statement_timeout t
        | Some existing \<Rightarrow>
            if existing = [] then pg_statement_timeout t
            else pg_statement_timeout t @ '' '' @ existing))]"
  by (simp add: optimize_for_dagit_def Let_def split: option.split)

end
